theory Spec2Isabelle
  imports Complex_Main
begin

section \<open>Exceptions and results\<close>

text \<open>
  The pipeline of \<^verbatim>\<open>data_processing/preprocess.py\<close> is modelled as pure functions.
  A Python exception is a value: a function that can raise returns
  \<open>py_error + 'a\<close>, with \<open>Inl\<close> the exception that propagates out of it.
  \<open>WarningAsError\<close> is a warning raised as an exception under the filter
  \<^verbatim>\<open>warnings.simplefilter("error")\<close>; \<open>LibraryError\<close> is any exception of a library
  the pipeline calls, named by its class.
\<close>

datatype py_error =
    ValueError
  | IndexError
  | KeyError
  | WarningAsError string
  | LibraryError string

definition bind_err :: "py_error + 'a \<Rightarrow> ('a \<Rightarrow> py_error + 'b) \<Rightarrow> py_error + 'b" where
  "bind_err r k = (case r of Inl e \<Rightarrow> Inl e | Inr v \<Rightarrow> k v)"

text \<open>\<^verbatim>\<open>xs[i]\<close> for a literal index \<open>i \<ge> 0\<close>: out of range raises IndexError.\<close>

definition py_index :: "'a list \<Rightarrow> nat \<Rightarrow> py_error + 'a" where
  "py_index xs i = (if i < length xs then Inr (xs ! i) else Inl IndexError)"

text \<open>
  Applying a function that can raise to every element in order; the first exception
  propagates. This is a list comprehension, and also \<^verbatim>\<open>Parallel(...)(delayed(f)(x) for x in xs)\<close>,
  which returns the results in the order of its inputs and re-raises a task's exception.
\<close>

fun map_err :: "('a \<Rightarrow> py_error + 'b) \<Rightarrow> 'a list \<Rightarrow> py_error + 'b list" where
  "map_err f [] = Inr []"
| "map_err f (x # xs) = bind_err (f x) (\<lambda>y. bind_err (map_err f xs) (\<lambda>ys. Inr (y # ys)))"

section \<open>Label Loader: \<^verbatim>\<open>get_genres\<close>\<close>

text \<open>
  Strings are lists of characters. \<open>isspace\<close> is the whitespace that \<^verbatim>\<open>str.strip()\<close>
  removes, over the code points an 8-bit \<open>char\<close> can hold: tab, line feed, vertical
  tab, form feed, carriage return, the separators 0x1C-0x1F, space, 0x85 and 0xA0.
\<close>

definition TAB :: char where "TAB = CHR 0x09"
definition NL :: char where "NL = CHR 0x0A"
definition CR :: char where "CR = CHR 0x0D"

definition isspace :: "char \<Rightarrow> bool" where
  "isspace c = (c \<in> {CHR 0x09, CHR 0x0A, CHR 0x0B, CHR 0x0C, CHR 0x0D, CHR 0x1C, CHR 0x1D,
                      CHR 0x1E, CHR 0x1F, CHR 0x20, CHR 0x85, CHR 0xA0})"

definition str_strip :: "string \<Rightarrow> string" where
  "str_strip s = rev (dropWhile isspace (rev (dropWhile isspace s)))"

fun split_from :: "char \<Rightarrow> string \<Rightarrow> string \<Rightarrow> string list" where
  "split_from sep cur [] = [cur]"
| "split_from sep cur (c # cs) =
     (if c = sep then cur # split_from sep [] cs else split_from sep (cur @ [c]) cs)"

definition str_split :: "string \<Rightarrow> char \<Rightarrow> string list" where
  "str_split s sep = split_from sep [] s"

fun readline :: "string \<Rightarrow> string \<times> string" where
  "readline [] = ([], [])"
| "readline (c # cs) =
     (if c = NL then ([c], cs) else (case readline cs of (l, rest) \<Rightarrow> (c # l, rest)))"

text \<open>
  \<^verbatim>\<open>open(path)\<close> opens the file in text mode with universal newlines: what the
  program reads is the characters of the file with every carriage return followed by
  a line feed, and every other carriage return, replaced by one line feed.
\<close>

fun universal_newlines :: "string \<Rightarrow> string" where
  "universal_newlines [] = []"
| "universal_newlines [c] = (if c = CR then [NL] else [c])"
| "universal_newlines (c # d # cs) =
     (if c = CR then
        (if d = NL then NL # universal_newlines cs else NL # universal_newlines (d # cs))
      else c # universal_newlines (d # cs))"

text \<open>
  \<open>readline\<close> is \<^verbatim>\<open>f.readline()\<close> on the text still to be read: it returns the next
  line, with its line feed when there is one, and the rest of the text. At the end of
  the file the line is empty. \<open>str_split s sep\<close> is \<^verbatim>\<open>s.split(sep)\<close> with a
  one-character separator, and \<open>unpack_two\<close> the unpacking \<^verbatim>\<open>[x, y, *_] = ...\<close>, which
  raises ValueError on fewer than two values.
\<close>

record genre_row =
  g_Genre :: string
  g_TrackID :: string

fun unpack_two :: "string list \<Rightarrow> py_error + (string \<times> string)" where
  "unpack_two (x # y # _) = Inr (x, y)"
| "unpack_two _ = Inl ValueError"

lemma readline_length: "length (fst (readline f)) + length (snd (readline f)) = length f"
  by (induction f) (auto split: prod.splits)

text \<open>
  The loop of lines 27-33: \<open>line\<close> is the line just read, \<open>f\<close> the text after it. It
  ends at the first empty line, which \<^verbatim>\<open>readline\<close> returns only at the end of the file.
  \<open>get_genres\<close> takes the characters of the label file and reads them in text mode.
\<close>

function get_genres_loop ::
  "string \<Rightarrow> string \<Rightarrow> string list \<Rightarrow> string list \<Rightarrow> py_error + (string list \<times> string list)" where
  "get_genres_loop line f ids genres =
     (if line = [] then Inr (ids, genres)
      else if hd line \<noteq> CHR ''#'' then
        bind_err (unpack_two (str_split (str_strip line) TAB)) (\<lambda>(x, y).
          get_genres_loop (fst (readline f)) (snd (readline f)) (ids @ [x]) (genres @ [y]))
      else get_genres_loop (fst (readline f)) (snd (readline f)) ids genres)"
  by pat_completeness auto
termination
proof (relation "measure (\<lambda>(line, f, ids, genres). length line + length f)")
  show "wf (measure (\<lambda>(line, f, ids, genres). length line + length f))" by simp
next
  fix line f :: string and ids genres :: "string list" and x :: "string \<times> string" and xa y
  assume "line \<noteq> []"
  then show "((fst (readline f), snd (readline f), ids @ [xa], genres @ [y]), line, f, ids, genres)
      \<in> measure (\<lambda>(line, f, ids, genres). length line + length f)"
    by (simp add: readline_length)
next
  fix line f :: string and ids genres :: "string list"
  assume "line \<noteq> []"
  then show "((fst (readline f), snd (readline f), ids, genres), line, f, ids, genres)
      \<in> measure (\<lambda>(line, f, ids, genres). length line + length f)"
    by (simp add: readline_length)
qed

declare get_genres_loop.simps [simp del]

definition get_genres :: "string \<Rightarrow> py_error + genre_row list" where
  "get_genres contents =
     (let f = universal_newlines contents in
      bind_err (get_genres_loop (fst (readline f)) (snd (readline f)) [] [])
        (\<lambda>(ids, genres). Inr (map (\<lambda>(g, t). \<lparr>g_Genre = g, g_TrackID = t\<rparr>) (zip genres ids))))"

section \<open>File Index Builder and Matcher: \<^verbatim>\<open>get_matched_midi\<close>\<close>

text \<open>
  The directory tree that \<^verbatim>\<open>os.walk\<close> can read: a directory is the list of its
  subdirectories, each under its entry name, and the list of its file names.
  \<open>path_join\<close> is \<^verbatim>\<open>os.path.join\<close> on POSIX, which \<^verbatim>\<open>os.walk\<close> uses to descend;
  \<open>walk\<close> yields \<^verbatim>\<open>(dir_name, subdirectory names, file names)\<close> top-down, the root
  under the path it was given. \<open>str_join\<close> is \<^verbatim>\<open>sep.join(parts)\<close>.
  \<^verbatim>\<open>dir_name.split("/")[-1]\<close> is \<open>last\<close> of the split, which is never empty.
\<close>

datatype dirtree = Dir (subdirs: "(string \<times> dirtree) list") (files: "string list")

definition path_join :: "string \<Rightarrow> string \<Rightarrow> string" where
  "path_join a b =
     (if b \<noteq> [] \<and> hd b = CHR ''/'' then b
      else if a = [] \<or> last a = CHR ''/'' then a @ b
      else a @ ''/'' @ b)"

fun walk :: "string \<Rightarrow> dirtree \<Rightarrow> (string \<times> string list \<times> string list) list" where
  "walk topdir (Dir ds fs) =
     (topdir, map fst ds, fs) # concat (map (\<lambda>d. walk (path_join topdir (fst d)) (snd d)) ds)"

definition str_join :: "string \<Rightarrow> string list \<Rightarrow> string" where
  "str_join sep parts = (case parts of [] \<Rightarrow> [] | p # ps \<Rightarrow> foldl (\<lambda>acc q. acc @ sep @ q) p ps)"

record midi_row =
  m_TrackID :: string
  m_Path :: string

definition all_midi_df :: "string \<Rightarrow> dirtree \<Rightarrow> midi_row list" where
  "all_midi_df midi_folder tree =
     concat (map (\<lambda>(dir_name, _, file_list).
        let track_id = last (str_split dir_name CHR ''/'');
            file_path_list = map (\<lambda>file. str_join ''/'' [dir_name, file]) file_list
        in map (\<lambda>file_path. \<lparr>m_TrackID = track_id, m_Path = file_path\<rparr>) file_path_list)
      (walk midi_folder tree))"

text \<open>
  \<^verbatim>\<open>pd.merge(all_midi_df, genre_df, on="TrackID", how="inner")\<close>: every left row is paired
  with every right row of the same TrackID, in the order of the left rows; then the
  TrackID column is dropped.
\<close>

record merged_row =
  j_TrackID :: string
  j_Path :: string
  j_Genre :: string

record matched_row =
  Path :: string
  Genre :: string

definition pd_merge_inner :: "midi_row list \<Rightarrow> genre_row list \<Rightarrow> merged_row list" where
  "pd_merge_inner left right =
     concat (map (\<lambda>l. map (\<lambda>r. \<lparr>j_TrackID = m_TrackID l, j_Path = m_Path l, j_Genre = g_Genre r\<rparr>)
                           (filter (\<lambda>r. g_TrackID r = m_TrackID l) right)) left)"

definition drop_TrackID :: "merged_row list \<Rightarrow> matched_row list" where
  "drop_TrackID df = map (\<lambda>j. \<lparr>Path = j_Path j, Genre = j_Genre j\<rparr>) df"

definition get_matched_midi :: "string \<Rightarrow> dirtree \<Rightarrow> genre_row list \<Rightarrow> matched_row list" where
  "get_matched_midi midi_folder tree genre_df =
     (let df = pd_merge_inner (all_midi_df midi_folder tree) genre_df
      in drop_TrackID df)"

section \<open>Feature Extractor: \<^verbatim>\<open>normalize_features\<close> and \<^verbatim>\<open>get_features\<close>\<close>

text \<open>
  \<^verbatim>\<open>normalize_features\<close> (lines 71-90). The arithmetic is that of the element type:
  subtraction and true division by the five pairs of constants, in the order of the
  source. The definition is stated for any number type with these operations; the
  pipeline uses it at type \<open>real\<close>, the exact counterpart of Python's floats.
\<close>

definition normalize_features ::
  "('a :: {minus, inverse, numeral}) list \<Rightarrow> py_error + 'a list" where
  "normalize_features features =
     bind_err (py_index features 0) (\<lambda>f0. let tempo = (f0 - 150) / 300 in
     bind_err (py_index features 1) (\<lambda>f1. let num_sig_changes = (f1 - 2) / 10 in
     bind_err (py_index features 2) (\<lambda>f2. let resolution = (f2 - 260) / 400 in
     bind_err (py_index features 3) (\<lambda>f3. let time_sig_1 = (f3 - 3) / 8 in
     bind_err (py_index features 4) (\<lambda>f4. let time_sig_2 = (f4 - 3) / 8 in
     Inr [tempo, num_sig_changes, resolution, time_sig_1, time_sig_2])))))"

text \<open>
  The MIDI parser is a collaborator outside the repository. A call to it returns a
  value, raises, or emits a warning and then would return a value. A parsed file
  offers \<^verbatim>\<open>estimate_tempo()\<close>, itself such a call, the list
  \<^verbatim>\<open>time_signature_changes\<close> and \<^verbatim>\<open>resolution\<close>. Inside
  \<^verbatim>\<open>warnings.catch_warnings()\<close> with \<^verbatim>\<open>simplefilter("error")\<close> an emitted warning is
  raised as an exception: \<open>warnings_as_errors\<close>.
  \<open>get_features_try\<close> is the body of the \<^verbatim>\<open>try\<close> (lines 108-122) and \<open>get_features\<close>
  adds the bare \<^verbatim>\<open>except: return None\<close>.
\<close>

datatype 'a outcome = Returns 'a | Raises py_error | Warns string 'a

record time_signature =
  numerator :: int
  denominator :: int

record pretty_midi =
  estimate_tempo :: "real outcome"
  time_signature_changes :: "time_signature list"
  resolution :: int

type_synonym midi_parser = "string \<Rightarrow> pretty_midi outcome"

definition warnings_as_errors :: "'a outcome \<Rightarrow> py_error + 'a" where
  "warnings_as_errors r =
     (case r of Returns v \<Rightarrow> Inr v | Raises e \<Rightarrow> Inl e | Warns w v \<Rightarrow> Inl (WarningAsError w))"

definition get_features_try :: "midi_parser \<Rightarrow> string \<Rightarrow> py_error + real list" where
  "get_features_try PrettyMIDI path =
     bind_err (warnings_as_errors (PrettyMIDI path)) (\<lambda>file.
     bind_err (warnings_as_errors (estimate_tempo file)) (\<lambda>tempo.
       let num_sig_changes = length (time_signature_changes file);
           resolution = resolution file;
           ts_changes = time_signature_changes file;
           ts_1 = (if length ts_changes > 0 then numerator (ts_changes ! 0) else 4);
           ts_2 = (if length ts_changes > 0 then denominator (ts_changes ! 0) else 4)
       in normalize_features
            [tempo, real num_sig_changes, real_of_int resolution, real_of_int ts_1, real_of_int ts_2]))"

definition get_features :: "midi_parser \<Rightarrow> string \<Rightarrow> real list option" where
  "get_features PrettyMIDI path =
     (case get_features_try PrettyMIDI path of Inr features \<Rightarrow> Some features | Inl _ \<Rightarrow> None)"

section \<open>Genre Encoder: \<^verbatim>\<open>one_hot\<close> and the genre dictionary\<close>

text \<open>
  \<open>unique\<close> is \<^verbatim>\<open>Series.unique()\<close>: the values in order of appearance.
  \<open>enumerate_dict\<close> is \<^verbatim>\<open>{genre: idx for idx, genre in enumerate(genre_list)}\<close>.
  \<open>eye\<close> is \<^verbatim>\<open>np.eye(n)\<close>, \<open>np_index\<close> is indexing an array by one integer (negative
  indices count from the end), \<open>astype_int\<close> is \<^verbatim>\<open>.astype(int)\<close>, truncation toward zero.
\<close>

definition unique :: "'a list \<Rightarrow> 'a list" where
  "unique xs = foldl (\<lambda>seen x. if x \<in> set seen then seen else seen @ [x]) [] xs"

definition enumerate_dict :: "'a list \<Rightarrow> ('a \<rightharpoonup> int)" where
  "enumerate_dict genre_list =
     foldl (\<lambda>d (idx, genre). d(genre \<mapsto> int idx)) Map.empty (enumerate 0 genre_list)"

definition eye :: "nat \<Rightarrow> real list list" where
  "eye n = map (\<lambda>i. map (\<lambda>j. if i = j then 1 else 0) [0..<n]) [0..<n]"

definition astype_int :: "real \<Rightarrow> int" where
  "astype_int x = (if 0 \<le> x then \<lfloor>x\<rfloor> else \<lceil>x\<rceil>)"

definition np_index :: "'a list \<Rightarrow> int \<Rightarrow> py_error + 'a" where
  "np_index a i =
     (let n = int (length a) in
      if 0 \<le> i \<and> i < n then Inr (a ! nat i)
      else if - n \<le> i \<and> i < 0 then Inr (a ! nat (n + i))
      else Inl IndexError)"

definition one_hot :: "int list \<Rightarrow> nat \<Rightarrow> py_error + int list list" where
  "one_hot labels num_classes =
     bind_err (map_err (np_index (eye num_classes)) labels) (\<lambda>selected.
       Inr (map (map astype_int) selected))"

section \<open>Row processing and assembly: \<^verbatim>\<open>process_row\<close> and \<^verbatim>\<open>save_matching_csv\<close>\<close>

text \<open>
  \<^verbatim>\<open>pd.DataFrame(processed_data)\<close> of a list of dictionaries has as columns the keys of
  the dictionaries in order of appearance: none for an empty list.
  \<^verbatim>\<open>dropna(subset=["Features"])\<close> raises KeyError when the frame has no such column and
  otherwise keeps the rows whose Features are not None.
  \<^verbatim>\<open>to_json(output_path, orient="records")\<close> writes one object per row.
  \<open>process_matched\<close> is lines 192-210 of \<^verbatim>\<open>save_matching_csv\<close>, from the matched frame
  on. The result of \<open>save_matching_csv\<close> is \<open>Inr\<close> of the records written to the output
  file, or \<open>Inl\<close> of the exception that ended the run before \<^verbatim>\<open>to_json\<close> was
  reached, in which case no output file is written.
\<close>

record processed_row =
  r_Path :: string
  r_Genre :: string
  OneHotGenre :: "int list"
  Features :: "real list option"

definition process_row ::
  "midi_parser \<Rightarrow> matched_row \<Rightarrow> (string \<rightharpoonup> int) \<Rightarrow> nat \<Rightarrow> py_error + processed_row" where
  "process_row PrettyMIDI row genre_dict num_classes =
     (let features = get_features PrettyMIDI (Path row) in
      bind_err (case genre_dict (Genre row) of None \<Rightarrow> Inl KeyError | Some i \<Rightarrow> Inr i) (\<lambda>genre_id.
      bind_err (one_hot [genre_id] num_classes) (\<lambda>encoded.
      bind_err (py_index encoded 0) (\<lambda>one_hot_genre.
        Inr \<lparr>r_Path = Path row, r_Genre = Genre row,
             OneHotGenre = one_hot_genre, Features = features\<rparr>))))"

record data_frame =
  columns :: "string list"
  records :: "processed_row list"

definition DataFrame :: "processed_row list \<Rightarrow> data_frame" where
  "DataFrame data =
     \<lparr>columns = unique (concat (map (\<lambda>_. [''Path'', ''Genre'', ''OneHotGenre'', ''Features'']) data)),
      records = data\<rparr>"

definition dropna_Features :: "data_frame \<Rightarrow> py_error + data_frame" where
  "dropna_Features df =
     (if ''Features'' \<notin> set (columns df) then Inl KeyError
      else Inr (df\<lparr>records := filter (\<lambda>r. Features r \<noteq> None) (records df)\<rparr>))"

definition to_json_records :: "data_frame \<Rightarrow> processed_row list" where
  "to_json_records df = records df"

definition process_matched :: "midi_parser \<Rightarrow> matched_row list \<Rightarrow> py_error + processed_row list" where
  "process_matched PrettyMIDI matched_df =
     (let genre_list = unique (map Genre matched_df);
          genre_dict = enumerate_dict genre_list;
          num_classes = length genre_list
      in bind_err (map_err (\<lambda>row. process_row PrettyMIDI row genre_dict num_classes) matched_df)
           (\<lambda>processed_data.
              let processed_df = DataFrame processed_data
              in bind_err (dropna_Features processed_df) (\<lambda>processed_df.
                   Inr (to_json_records processed_df))))"

definition save_matching_csv ::
  "midi_parser \<Rightarrow> string \<Rightarrow> string \<Rightarrow> dirtree \<Rightarrow> py_error + processed_row list" where
  "save_matching_csv PrettyMIDI genre_file midi_folder tree =
     bind_err (get_genres genre_file) (\<lambda>genre_df.
       let matched_df = get_matched_midi midi_folder tree genre_df
       in process_matched PrettyMIDI matched_df)"

section \<open>Notions of the specification\<close>

text \<open>
  The lines of a file are what successive \<^verbatim>\<open>readline\<close> calls return before the end.
\<close>

lemma readline_nonempty: "f \<noteq> [] \<Longrightarrow> fst (readline f) \<noteq> []"
  by (cases f) (auto split: prod.splits)

lemma readline_shorter: "f \<noteq> [] \<Longrightarrow> length (snd (readline f)) < length f"
  using readline_length [of f] readline_nonempty [of f] by (cases "fst (readline f)") auto

function file_lines :: "string \<Rightarrow> string list" where
  "file_lines [] = []"
| "file_lines (c # cs) = fst (readline (c # cs)) # file_lines (snd (readline (c # cs)))"
  by pat_completeness auto
termination
proof (relation "measure length")
  show "wf (measure length)" by simp
next
  fix c cs
  show "(snd (readline (c # cs)), c # cs) \<in> measure length"
    using readline_shorter [of "c # cs"] by (simp del: readline.simps)
qed

text \<open>
  The lines of the label file are the lines of its text as text mode delivers it: a
  line ends at a line feed, at a carriage return, or at the pair of them.
\<close>

definition text_lines :: "string \<Rightarrow> string list" where
  "text_lines contents = file_lines (universal_newlines contents)"





text \<open>
  The pairs of a file record and a label record that share an identifier: the cross
  product of the two inputs, restricted to equal identifiers.
\<close>

definition matching_pairs :: "midi_row list \<Rightarrow> genre_row list \<Rightarrow> (midi_row \<times> genre_row) list" where
  "matching_pairs file_records label_records =
     filter (\<lambda>(f, l). m_TrackID f = g_TrackID l) (List.product file_records label_records)"

text \<open>
  \<open>first_index xs x\<close> is the position of the first occurrence of \<open>x\<close> in \<open>xs\<close>, and
  \<open>unit_vector n i\<close> the vector of length \<open>n\<close> with 1 at index \<open>i\<close> and 0 elsewhere.
  \<open>expected_row\<close> is the record the specification asks for a matched row: its own path
  and genre, the one-hot vector of its genre's index and the features of its file.
\<close>

definition first_index :: "'a list \<Rightarrow> 'a \<Rightarrow> nat" where
  "first_index xs x = length (takeWhile (\<lambda>y. y \<noteq> x) xs)"

definition unit_vector :: "nat \<Rightarrow> nat \<Rightarrow> int list" where
  "unit_vector n i = map (\<lambda>j. if j = i then 1 else 0) [0..<n]"

definition expected_row :: "midi_parser \<Rightarrow> string list \<Rightarrow> matched_row \<Rightarrow> processed_row" where
  "expected_row PrettyMIDI genre_list row =
     \<lparr>r_Path = Path row, r_Genre = Genre row,
      OneHotGenre = unit_vector (length genre_list) (first_index genre_list (Genre row)),
      Features = get_features PrettyMIDI (Path row)\<rparr>"

text \<open>
  Two views used in the proofs. \<open>collect_labels\<close> is the loop of \<^verbatim>\<open>get_genres\<close> run over
  the list of the lines of the file, and \<open>rows_of_dir\<close> the records that the File Index
  Builder makes of one directory of the walk.
\<close>

fun collect_labels ::
  "string list \<Rightarrow> string list \<Rightarrow> string list \<Rightarrow> py_error + (string list \<times> string list)" where
  "collect_labels [] ids genres = Inr (ids, genres)"
| "collect_labels (l # ls) ids genres =
     (if hd l \<noteq> CHR ''#'' then
        bind_err (unpack_two (str_split (str_strip l) TAB)) (\<lambda>(x, y).
          collect_labels ls (ids @ [x]) (genres @ [y]))
      else collect_labels ls ids genres)"


section \<open>Example inputs\<close>

text \<open>
  A label file with a comment ended by a line feed, a line with a third field ended by
  a carriage return and a line feed, a repeated identifier on a line ended by a lone
  carriage return, and a last line without a line end; and a parser for which no file
  can be opened.
\<close>

definition label_file_example :: string where
  "label_file_example =
     ''#comment'' @ [NL] @ ''TRK001'' @ [TAB] @ ''Rock'' @ [TAB] @ ''extra'' @ [CR, NL]
     @ ''TRK001'' @ [TAB] @ ''Pop'' @ [CR] @ ''TRK002'' @ [TAB] @ ''Rock''"

definition no_midi :: midi_parser where
  "no_midi path = Raises (LibraryError ''OSError'')"

text \<open>
  A tree with two files under TRK001 and one under TRK002, and labels with two genres
  for TRK001 and one for an identifier that has no directory.
\<close>

definition example_tree :: dirtree where
  "example_tree =
     Dir [(''TRK001'', Dir [] [''a.mid'', ''b.mid'']), (''TRK002'', Dir [] [''c.mid''])] []"

definition example_genre_df :: "genre_row list" where
  "example_genre_df =
     [\<lparr>g_Genre = ''Rock'', g_TrackID = ''TRK001''\<rparr>,
      \<lparr>g_Genre = ''Pop'', g_TrackID = ''TRK001''\<rparr>,
      \<lparr>g_Genre = ''Jazz'', g_TrackID = ''TRK003''\<rparr>]"

text \<open>
  Three matched rows with two genres, and a parser under which the first file parses
  (tempo 120, no time-signature change, resolution 480), the second emits a warning
  and the third parses but has no tempo estimate.
\<close>

definition example_matched_df :: "matched_row list" where
  "example_matched_df =
     [\<lparr>Path = ''root/TRK001/a.mid'', Genre = ''Rock''\<rparr>,
      \<lparr>Path = ''root/TRK002/b.mid'', Genre = ''Pop''\<rparr>,
      \<lparr>Path = ''root/TRK003/c.mid'', Genre = ''Rock''\<rparr>]"

definition song :: pretty_midi where
  "song = \<lparr>estimate_tempo = Returns 120, time_signature_changes = [], resolution = 480\<rparr>"

definition silent_song :: pretty_midi where
  "silent_song =
     \<lparr>estimate_tempo = Raises ValueError,
      time_signature_changes = [\<lparr>numerator = 3, denominator = 4\<rparr>], resolution = 220\<rparr>"

definition example_parser :: midi_parser where
  "example_parser path =
     (if path = ''root/TRK001/a.mid'' then Returns song
      else if path = ''root/TRK002/b.mid'' then Warns ''RuntimeWarning'' song
      else if path = ''root/TRK003/c.mid'' then Returns silent_song
      else Raises (LibraryError ''OSError''))"

section \<open>Properties of the Label Loader\<close>

lemma bind_err_simps [simp]:
  "bind_err (Inl e) k = Inl e"
  "bind_err (Inr v) k = k v"
  by (simp_all add: bind_err_def)

lemma file_lines_unfold:
  "f \<noteq> [] \<Longrightarrow> file_lines f = fst (readline f) # file_lines (snd (readline f))"
  by (cases f) simp_all

lemma readline_empty_iff: "fst (readline f) = [] \<longleftrightarrow> f = []"
  by (cases f) (auto split: prod.splits)

lemma loop_collect:
  "get_genres_loop line f ids genres =
     (if line = [] then Inr (ids, genres) else collect_labels (line # file_lines f) ids genres)"
proof (induction line f ids genres rule: get_genres_loop.induct)
  case (1 line f ids genres)
  show ?case
  proof (cases "line = []")
    case True
    then show ?thesis by (subst get_genres_loop.simps) simp
  next
    case ne: False
    have fl: "(if fst (readline f) = [] then Inr (i, g)
               else collect_labels (fst (readline f) # file_lines (snd (readline f))) i g)
              = collect_labels (file_lines f) i g" for i g
      by (simp add: readline_empty_iff file_lines_unfold del: readline.simps)
    show ?thesis
    proof (cases "hd line \<noteq> CHR ''#''")
      case True
      show ?thesis
      proof (cases "unpack_two (str_split (str_strip line) TAB)")
        case (Inl e)
        with ne True show ?thesis by (subst get_genres_loop.simps) simp
      next
        case (Inr p)
        obtain x y where p: "p = (x, y)" by (cases p)
        from "1.IH"(1) [OF ne True, of x y] fl [of "ids @ [x]" "genres @ [y]"]
        have "get_genres_loop (fst (readline f)) (snd (readline f)) (ids @ [x]) (genres @ [y])
              = collect_labels (file_lines f) (ids @ [x]) (genres @ [y])" by simp
        with ne True Inr p show ?thesis by (subst get_genres_loop.simps) simp
      qed
    next
      case False
      from "1.IH"(2) [OF ne False] fl [of ids genres]
      have "get_genres_loop (fst (readline f)) (snd (readline f)) ids genres
            = collect_labels (file_lines f) ids genres" by simp
      with ne False show ?thesis by (subst get_genres_loop.simps) simp
    qed
  qed
qed

lemma get_genres_collect:
  "get_genres contents =
     bind_err (collect_labels (text_lines contents) [] [])
       (\<lambda>(ids, genres). Inr (map (\<lambda>(g, t). \<lparr>g_Genre = g, g_TrackID = t\<rparr>) (zip genres ids)))"
proof -
  let ?f = "universal_newlines contents"
  have "get_genres_loop (fst (readline ?f)) (snd (readline ?f)) [] []
        = collect_labels (file_lines ?f) [] []"
  proof (cases "?f = []")
    case True
    then show ?thesis by (simp add: loop_collect)
  next
    case False
    then show ?thesis
      by (simp add: loop_collect readline_empty_iff file_lines_unfold del: readline.simps)
  qed
  then show ?thesis by (simp add: get_genres_def text_lines_def Let_def)
qed

lemma unpack_two_Inr:
  "2 \<le> length xs \<Longrightarrow> unpack_two xs = Inr (xs ! 0, xs ! 1)"
  by (cases xs rule: unpack_two.cases) auto

lemma unpack_two_Inl:
  "length xs < 2 \<Longrightarrow> unpack_two xs = Inl ValueError"
  by (cases xs rule: unpack_two.cases) auto

lemma collect_labels_ok:
  assumes "\<forall>l \<in> set ls. hd l \<noteq> CHR ''#'' \<longrightarrow> 2 \<le> length (str_split (str_strip l) TAB)"
  shows "collect_labels ls ids genres =
           Inr (ids @ map (\<lambda>l. str_split (str_strip l) TAB ! 0) (filter (\<lambda>l. hd l \<noteq> CHR ''#'') ls),
                genres @ map (\<lambda>l. str_split (str_strip l) TAB ! 1) (filter (\<lambda>l. hd l \<noteq> CHR ''#'') ls))"
  using assms
proof (induction ls arbitrary: ids genres)
  case Nil
  then show ?case by simp
next
  case (Cons l ls)
  then show ?case by (simp add: unpack_two_Inr)
qed

lemma collect_labels_bad:
  assumes "l \<in> set ls" and "hd l \<noteq> CHR ''#''"
    and "length (str_split (str_strip l) TAB) < 2"
  shows "collect_labels ls ids genres = Inl ValueError"
  using assms
proof (induction ls arbitrary: ids genres)
  case Nil
  then show ?case by simp
next
  case (Cons a ls)
  show ?case
  proof (cases "hd a \<noteq> CHR ''#''")
    case True
    show ?thesis
    proof (cases "unpack_two (str_split (str_strip a) TAB)")
      case (Inl e)
      then have "e = ValueError"
        by (cases "str_split (str_strip a) TAB" rule: unpack_two.cases) auto
      with Inl True show ?thesis by simp
    next
      case (Inr p)
      then have "a \<noteq> l" using Cons.prems(3) by (auto simp: unpack_two_Inl)
      with Cons.prems have "l \<in> set ls" by simp
      from Cons.IH [OF this Cons.prems(2,3)] Inr True show ?thesis
        by (cases p) simp
    qed
  next
    case False
    with Cons.prems have "l \<in> set ls" by auto
    from Cons.IH [OF this Cons.prems(2,3)] False show ?thesis by simp
  qed
qed

lemma length_split_from: "length (split_from sep cur s) = Suc (count_list s sep)"
  by (induction s arbitrary: cur) auto

lemma length_str_split: "length (str_split s sep) = Suc (count_list s sep)"
  by (simp add: str_split_def length_split_from)

lemma count_list_dropWhile: "count_list (dropWhile P xs) x \<le> count_list xs x"
  by (induction xs) auto

lemma count_list_rev: "count_list (rev xs) x = count_list xs x"
  by (induction xs) auto

lemma count_list_strip: "count_list (str_strip s) c \<le> count_list s c"
proof -
  have "count_list (str_strip s) c = count_list (dropWhile isspace (rev (dropWhile isspace s))) c"
    by (simp add: str_strip_def count_list_rev)
  also have "\<dots> \<le> count_list (rev (dropWhile isspace s)) c" by (rule count_list_dropWhile)
  also have "\<dots> = count_list (dropWhile isspace s) c" by (rule count_list_rev)
  also have "\<dots> \<le> count_list s c" by (rule count_list_dropWhile)
  finally show ?thesis .
qed

lemma fields_strip_le: "length (str_split (str_strip l) TAB) \<le> length (str_split l TAB)"
  by (simp add: length_str_split count_list_strip)

lemma NL_neq_CR [simp]: "NL \<noteq> CR" "CR \<noteq> NL"
  by (simp_all add: NL_def CR_def)

lemma un_not_CR: "c \<noteq> CR \<Longrightarrow> universal_newlines (c # cs) = c # universal_newlines cs"
  by (cases cs) simp_all

lemma un_CR: "\<exists>z. universal_newlines (CR # cs) = NL # z"
  by (cases cs) simp_all

lemma un_snoc_NL: "\<exists>y. universal_newlines (a @ [NL]) = y @ [NL]"
proof (induction a rule: universal_newlines.induct)
  case 1
  then show ?case by simp
next
  case (2 c)
  then show ?case by simp
next
  case (3 c d cs)
  show ?case
  proof (cases "c = CR")
    case True
    show ?thesis
    proof (cases "d = NL")
      case dn: True
      from 3(1) [OF True dn] obtain y where "universal_newlines (cs @ [NL]) = y @ [NL]" by blast
      then have "universal_newlines ((c # d # cs) @ [NL]) = (NL # y) @ [NL]"
        using True dn by simp
      then show ?thesis by blast
    next
      case dn: False
      from 3(2) [OF True dn] obtain y where "universal_newlines ((d # cs) @ [NL]) = y @ [NL]" by blast
      then have "universal_newlines ((c # d # cs) @ [NL]) = (NL # y) @ [NL]"
        using True dn by simp
      then show ?thesis by blast
    qed
  next
    case False
    from 3(3) [OF False] obtain y where "universal_newlines ((d # cs) @ [NL]) = y @ [NL]" by blast
    then have "universal_newlines ((c # d # cs) @ [NL]) = (c # y) @ [NL]"
      using False by simp
    then show ?thesis by blast
  qed
qed

lemma un_append_NL:
  "universal_newlines (a @ NL # b) = universal_newlines (a @ [NL]) @ universal_newlines b"
proof (induction a rule: universal_newlines.induct)
  case 1
  then show ?case by (simp add: un_not_CR)
next
  case (2 c)
  then show ?case by (simp add: un_not_CR)
next
  case (3 c d cs)
  then show ?case by simp
qed

lemma readline_NL: "NL \<notin> set q \<Longrightarrow> readline (q @ NL # x) = (q @ [NL], x)"
  by (induction q) auto

lemma readline_no_NL: "NL \<notin> set q \<Longrightarrow> readline q = (q, [])"
  by (induction q) auto

lemma file_lines_step: "NL \<notin> set q \<Longrightarrow> file_lines (q @ NL # x) = (q @ [NL]) # file_lines x"
  using file_lines_unfold [of "q @ NL # x"] by (simp add: readline_NL del: readline.simps)

lemma file_lines_last: "NL \<notin> set q \<Longrightarrow> q \<noteq> [] \<Longrightarrow> file_lines q = [q]"
  using file_lines_unfold [of q] by (simp add: readline_no_NL del: readline.simps)

lemma split_at_NL:
  "NL \<in> set a \<Longrightarrow> \<exists>q r. a = q @ NL # r \<and> NL \<notin> set q"
  by (metis split_list_first)

lemma file_lines_append_NL:
  "file_lines (a @ NL # b) = file_lines (a @ [NL]) @ file_lines b"
proof (induction a rule: length_induct)
  case (1 a)
  show ?case
  proof (cases "NL \<in> set a")
    case False
    then show ?thesis
      using file_lines_step [of a b] file_lines_step [of a "[]"] by simp
  next
    case True
    then obtain q r where a: "a = q @ NL # r" and q: "NL \<notin> set q" using split_at_NL by blast
    then have "length r < length a" by simp
    with 1 have IH: "file_lines (r @ NL # b) = file_lines (r @ [NL]) @ file_lines b" by blast
    show ?thesis
      using file_lines_step [OF q, of "r @ NL # b"] file_lines_step [OF q, of "r @ [NL]"] IH
      by (simp add: a)
  qed
qed

lemma text_lines_append_NL:
  "text_lines (a @ NL # b) = text_lines (a @ [NL]) @ text_lines b"
proof -
  obtain y where y: "universal_newlines (a @ [NL]) = y @ [NL]" using un_snoc_NL by blast
  have "universal_newlines (a @ NL # b) = y @ NL # universal_newlines b"
    by (subst un_append_NL) (simp add: y)
  then have "text_lines (a @ NL # b) = file_lines (y @ NL # universal_newlines b)"
    by (simp only: text_lines_def)
  also have "\<dots> = file_lines (y @ [NL]) @ file_lines (universal_newlines b)"
    by (rule file_lines_append_NL)
  finally show ?thesis by (simp add: text_lines_def y)
qed

lemma text_lines_of_raw_line:
  "l \<in> set (file_lines contents) \<Longrightarrow> set (text_lines l) \<subseteq> set (text_lines contents)"
proof (induction contents arbitrary: l rule: length_induct)
  case (1 contents)
  from "1.prems" have ne: "contents \<noteq> []" by auto
  show ?case
  proof (cases "NL \<in> set contents")
    case False
    with ne "1.prems" show ?thesis by (simp add: file_lines_last)
  next
    case True
    then obtain q r where c: "contents = q @ NL # r" and q: "NL \<notin> set q"
      using split_at_NL by blast
    from "1.prems" have "l = q @ [NL] \<or> l \<in> set (file_lines r)"
      by (simp add: c file_lines_step [OF q])
    then show ?thesis
    proof
      assume "l = q @ [NL]"
      then show ?thesis by (simp add: c text_lines_append_NL [of q r])
    next
      assume l: "l \<in> set (file_lines r)"
      have "length r < length contents" by (simp add: c)
      with 1 l have "set (text_lines l) \<subseteq> set (text_lines r)" by blast
      then show ?thesis by (auto simp: c text_lines_append_NL [of q r])
    qed
  qed
qed


lemma isspace_NL [simp]: "isspace NL"
  by (simp add: isspace_def NL_def)

lemma dropWhile_skip: "\<forall>y \<in> set xs. P y \<Longrightarrow> dropWhile P (xs @ ys) = dropWhile P ys"
  by (induction xs) auto

lemma strip_prefix_subset: "set (str_strip q) \<subseteq> set (str_strip (q @ r))"
proof (cases "\<forall>x \<in> set q. isspace x")
  case True
  then have "str_strip q = []" by (auto simp: str_strip_def dest: set_dropWhileD)
  then show ?thesis by (simp only: list.set empty_subsetI)
next
  case False
  then obtain x where x: "x \<in> set q" "\<not> isspace x" by blast
  let ?q' = "dropWhile isspace q"
  have d: "dropWhile isspace (q @ r) = ?q' @ r"
    using x by (rule dropWhile_append1)
  have sq: "set (str_strip q) \<subseteq> set ?q'"
    by (auto simp: str_strip_def dest: set_dropWhileD)
  show ?thesis
  proof (cases "\<forall>y \<in> set (rev r). isspace y")
    case True
    then have "dropWhile isspace (rev r @ rev ?q') = dropWhile isspace (rev ?q')"
      by (rule dropWhile_skip)
    then show ?thesis by (simp add: str_strip_def d)
  next
    case False
    then obtain y where "y \<in> set (rev r)" "\<not> isspace y" by blast
    then have "dropWhile isspace (rev r @ rev ?q') = dropWhile isspace (rev r) @ rev ?q'"
      by (rule dropWhile_append1)
    then have "set ?q' \<subseteq> set (str_strip (q @ r))"
      by (auto simp: str_strip_def d)
    with sq show ?thesis by blast
  qed
qed

lemma strip_snoc_space:
  assumes "isspace w"
  shows "str_strip (q @ [w]) = str_strip q"
proof (cases "\<forall>x \<in> set q. isspace x")
  case True
  with assms have "str_strip (q @ [w]) = []" "str_strip q = []"
    by (auto simp: str_strip_def dest: set_dropWhileD)
  then show ?thesis by (simp only:)
next
  case False
  then obtain x where x: "x \<in> set q" "\<not> isspace x" by blast
  then have "dropWhile isspace (q @ [w]) = dropWhile isspace q @ [w]"
    by (rule dropWhile_append1)
  with assms show ?thesis by (simp add: str_strip_def)
qed

lemma un_not_CR2: "CR \<noteq> c \<Longrightarrow> universal_newlines (c # cs) = c # universal_newlines cs"
  by (cases cs) auto

lemma un_no_CR: "CR \<notin> set q \<Longrightarrow> universal_newlines (q @ z) = q @ universal_newlines z"
  by (induction q) (simp_all add: un_not_CR2)

lemma un_starts_NL:
  assumes "c = CR \<or> c = NL"
  shows "\<exists>z. universal_newlines (c # r) = NL # z"
  using assms un_CR [of r] by (auto simp: un_not_CR)

lemma file_lines_nonempty: "l \<in> set (file_lines contents) \<Longrightarrow> l \<noteq> []"
proof (induction contents rule: file_lines.induct)
  case 1
  then show ?case by simp
next
  case (2 c cs)
  then show ?case
    using readline_nonempty [of "c # cs"] by (auto simp del: readline.simps)
qed

lemma first_text_line_short:
  assumes "l \<noteq> []" and "hd l \<noteq> CHR ''#''" and "TAB \<notin> set (str_strip l)"
  shows "\<exists>p \<in> set (text_lines l). hd p \<noteq> CHR ''#'' \<and> TAB \<notin> set (str_strip p)"
proof -
  let ?q = "takeWhile (\<lambda>c. c \<noteq> CR \<and> c \<noteq> NL) l"
  have q: "CR \<notin> set ?q" "NL \<notin> set ?q" by (auto dest: set_takeWhileD)
  show ?thesis
  proof (cases "dropWhile (\<lambda>c. c \<noteq> CR \<and> c \<noteq> NL) l")
    case Nil
    then have l: "l = ?q" by (metis append_Nil2 takeWhile_dropWhile_id)
    then have "universal_newlines l = l"
      using un_no_CR [OF q(1), of "[]"] by simp
    moreover have "file_lines l = [l]"
      using q(2) assms(1) l file_lines_last [of l] by simp
    ultimately have "text_lines l = [l]" by (simp add: text_lines_def)
    with assms show ?thesis by simp
  next
    case (Cons c r)
    then have l: "l = ?q @ c # r" by (metis takeWhile_dropWhile_id)
    from Cons have c: "c = CR \<or> c = NL"
      using hd_dropWhile [of "\<lambda>c. c \<noteq> CR \<and> c \<noteq> NL" l] by auto
    then obtain z where z: "universal_newlines (c # r) = NL # z" using un_starts_NL by blast
    have "universal_newlines l = ?q @ NL # z"
      using un_no_CR [OF q(1), of "c # r"] l z by simp
    then have "text_lines l = (?q @ [NL]) # file_lines z"
      using file_lines_step [OF q(2), of z] by (simp add: text_lines_def)
    then have mem: "?q @ [NL] \<in> set (text_lines l)" by simp
    have "hd (?q @ [NL]) \<noteq> CHR ''#''"
    proof (cases "?q")
      case Nil
      then show ?thesis by (simp add: NL_def)
    next
      case (Cons a list)
      then have "hd ?q = hd l" using l by (metis hd_append2 list.distinct(1))
      with Cons assms(2) show ?thesis by simp
    qed
    moreover have "TAB \<notin> set (str_strip (?q @ [NL]))"
    proof -
      have "set (str_strip ?q) \<subseteq> set (str_strip (?q @ c # r))" by (rule strip_prefix_subset)
      with assms(3) l have "TAB \<notin> set (str_strip ?q)" by auto
      then show ?thesis by (simp add: strip_snoc_space)
    qed
    ultimately show ?thesis using mem by blast
  qed
qed

lemma short_iff_no_TAB: "length (str_split s TAB) < 2 \<longleftrightarrow> TAB \<notin> set s"
  by (simp add: length_str_split count_list_0_iff)

text \<open>
  C6 (as amended). When every non-comment line of the label file, once its leading and
  trailing whitespace is stripped, has at least two tab-separated fields, the Label
  Loader returns exactly one record per non-comment line, in file order: the first
  field of the stripped line is the identifier, the second the genre, further fields
  are ignored, lines beginning with \<open>#\<close> are skipped and nothing is deduplicated. The
  lines are those of text mode, ended by a line feed, a carriage return or both.
\<close>

theorem C6_get_genres_one_record_per_line:
  assumes "\<forall>l \<in> set (text_lines contents).
             hd l \<noteq> CHR ''#'' \<longrightarrow> 2 \<le> length (str_split (str_strip l) TAB)"
  shows "get_genres contents =
           Inr (map (\<lambda>l. \<lparr>g_Genre = str_split (str_strip l) TAB ! 1,
                           g_TrackID = str_split (str_strip l) TAB ! 0\<rparr>)
                    (filter (\<lambda>l. hd l \<noteq> CHR ''#'') (text_lines contents)))"
  by (simp add: get_genres_collect collect_labels_ok [OF assms] zip_map_map zip_same_conv_map o_def)

text \<open>
  C6, witness: the example file gives three records, the comment skipped, the third
  field ignored, the identifier TRK001 kept twice, and the lines ended by a carriage
  return read as lines of their own.
\<close>

theorem C6_get_genres_witness:
  "text_lines label_file_example =
     [''#comment'' @ [NL], ''TRK001'' @ [TAB] @ ''Rock'' @ [TAB] @ ''extra'' @ [NL],
      ''TRK001'' @ [TAB] @ ''Pop'' @ [NL], ''TRK002'' @ [TAB] @ ''Rock'']
   \<and> get_genres label_file_example =
     Inr [\<lparr>g_Genre = ''Rock'', g_TrackID = ''TRK001''\<rparr>,
          \<lparr>g_Genre = ''Pop'', g_TrackID = ''TRK001''\<rparr>,
          \<lparr>g_Genre = ''Rock'', g_TrackID = ''TRK002''\<rparr>]"
proof -
  have l: "text_lines label_file_example =
     [''#comment'' @ [NL], ''TRK001'' @ [TAB] @ ''Rock'' @ [TAB] @ ''extra'' @ [NL],
      ''TRK001'' @ [TAB] @ ''Pop'' @ [NL], ''TRK002'' @ [TAB] @ ''Rock'']"
    by code_simp
  have h: "\<forall>l \<in> set (text_lines label_file_example).
             hd l \<noteq> CHR ''#'' \<longrightarrow> 2 \<le> length (str_split (str_strip l) TAB)"
    by code_simp
  have e: "map (\<lambda>l. \<lparr>g_Genre = str_split (str_strip l) TAB ! 1,
                           g_TrackID = str_split (str_strip l) TAB ! 0\<rparr>)
                    (filter (\<lambda>l. hd l \<noteq> CHR ''#'') (text_lines label_file_example))
      = [\<lparr>g_Genre = ''Rock'', g_TrackID = ''TRK001''\<rparr>,
          \<lparr>g_Genre = ''Pop'', g_TrackID = ''TRK001''\<rparr>,
          \<lparr>g_Genre = ''Rock'', g_TrackID = ''TRK002''\<rparr>]"
    by code_simp
  from C6_get_genres_one_record_per_line [OF h]
  have "get_genres label_file_example =
     Inr [\<lparr>g_Genre = ''Rock'', g_TrackID = ''TRK001''\<rparr>,
          \<lparr>g_Genre = ''Pop'', g_TrackID = ''TRK001''\<rparr>,
          \<lparr>g_Genre = ''Rock'', g_TrackID = ''TRK002''\<rparr>]"
    by (simp only: e)
  with l show ?thesis by (rule conjI)
qed

text \<open>
  C6, counterexample to the claim as stated. The file whose only line is
  \<open>TRK001\<close> followed by a tab is a non-comment line with two tab-separated fields,
  \<open>TRK001\<close> and the empty string; \<^verbatim>\<open>line.strip()\<close> removes the tab with the other
  trailing whitespace, one field is left, and the loader raises ValueError instead of
  producing a record.
\<close>

theorem C6_trailing_tab_counterexample:
  "text_lines (''TRK001'' @ [TAB]) = [''TRK001'' @ [TAB]]
   \<and> hd (''TRK001'' @ [TAB]) \<noteq> CHR ''#''
   \<and> str_split (''TRK001'' @ [TAB]) TAB = [''TRK001'', []]
   \<and> get_genres (''TRK001'' @ [TAB]) = Inl ValueError"
  by code_simp

section \<open>Properties of the File Index Builder\<close>




















section \<open>Properties of the Matcher\<close>

lemma pd_merge_inner_pairs:
  "pd_merge_inner left right =
     map (\<lambda>(f, l). \<lparr>j_TrackID = m_TrackID f, j_Path = m_Path f, j_Genre = g_Genre l\<rparr>)
         (matching_pairs left right)"
proof (induction left)
  case Nil
  then show ?case by (simp add: pd_merge_inner_def matching_pairs_def)
next
  case (Cons x xs)
  have "filter (\<lambda>(f, l). m_TrackID f = g_TrackID l) (map (Pair x) right)
        = map (Pair x) (filter (\<lambda>r. g_TrackID r = m_TrackID x) right)"
    by (induction right) auto
  with Cons show ?case
    by (simp add: pd_merge_inner_def matching_pairs_def o_def)
qed

lemma get_matched_midi_pairs:
  "get_matched_midi midi_folder tree genre_df =
     map (\<lambda>(f, l). \<lparr>Path = m_Path f, Genre = g_Genre l\<rparr>)
         (matching_pairs (all_midi_df midi_folder tree) genre_df)"
  by (simp add: get_matched_midi_def drop_TrackID_def pd_merge_inner_pairs o_def case_prod_unfold)

lemma card_index_pairs_Cons:
  "card {(i, j). i < Suc n \<and> j < (m::nat) \<and> P i j}
   = card {j. j < m \<and> P 0 j} + card {(i, j). i < n \<and> j < m \<and> P (Suc i) j}"
proof -
  let ?A = "{(i, j). i = 0 \<and> j < m \<and> P i j}"
  let ?B = "{(i, j). i < n \<and> j < m \<and> P (Suc i) j}"
  let ?B' = "(\<lambda>(i, j). (Suc i, j)) ` ?B"
  have "?B \<subseteq> {..<n} \<times> {..<m}" by auto
  moreover have "finite ({..<n} \<times> {..<m})" by (intro finite_cartesian_product finite_lessThan)
  ultimately have finB: "finite ?B" by (rule finite_subset)
  have "?A \<subseteq> {0} \<times> {..<m}" by auto
  moreover have "finite ({0::nat} \<times> {..<m})" by (intro finite_cartesian_product finite_lessThan) simp
  ultimately have finA: "finite ?A" by (rule finite_subset)
  have split: "{(i, j). i < Suc n \<and> j < m \<and> P i j} = ?A \<union> ?B'"
  proof (rule set_eqI)
    fix p :: "nat \<times> nat"
    obtain i j where p: "p = (i, j)" by (cases p)
    show "p \<in> {(i, j). i < Suc n \<and> j < m \<and> P i j} \<longleftrightarrow> p \<in> ?A \<union> ?B'"
      unfolding p by (cases i) (auto simp: image_iff)
  qed
  have disj: "?A \<inter> ?B' = {}" by auto
  have "card ?B' = card ?B" by (rule card_image) (auto simp: inj_on_def)
  moreover have "card ?A = card {j. j < m \<and> P 0 j}"
  proof -
    have "?A = Pair 0 ` {j. j < m \<and> P 0 j}" by auto
    then show ?thesis by (simp add: card_image inj_on_def)
  qed
  ultimately show ?thesis
    using card_Un_disjoint [OF finA _ disj] finB by (simp add: split)
qed

lemma length_filter_product:
  "length (filter (\<lambda>(x, y). Q x y) (List.product xs ys))
   = card {(i, j). i < length xs \<and> j < length ys \<and> Q (xs ! i) (ys ! j)}"
proof (induction xs)
  case Nil
  then show ?case by simp
next
  case (Cons x xs)
  have "filter (\<lambda>(x, y). Q x y) (map (Pair x) ys) = map (Pair x) (filter (Q x) ys)"
    by (induction ys) auto
  then have "length (filter (\<lambda>(x, y). Q x y) (map (Pair x) ys)) = card {j. j < length ys \<and> Q x (ys ! j)}"
    by (simp add: length_filter_conv_card)
  with Cons show ?case
    using card_index_pairs_Cons [of "length xs" "length ys" "\<lambda>i j. Q ((x # xs) ! i) (ys ! j)"]
    by simp
qed

lemma length_matching_pairs:
  "length (matching_pairs fs ls)
   = card {(i, j). i < length fs \<and> j < length ls \<and> m_TrackID (fs ! i) = g_TrackID (ls ! j)}"
  unfolding matching_pairs_def by (rule length_filter_product)

lemma set_matching_pairs:
  "set (matching_pairs fs ls) = {(f, l). f \<in> set fs \<and> l \<in> set ls \<and> m_TrackID f = g_TrackID l}"
  by (auto simp: matching_pairs_def)

text \<open>
  C3. The Matcher is an inner join on the identifier: its rows are, in order, the
  (file, label) pairs that share an identifier, each pair once; a pair is matched
  exactly when its file is in the file index, its label in the label set and the two
  identifiers are equal, so no row comes from an identifier missing on either side; the
  number of rows is the number of index pairs \<open>(i, j)\<close> with equal identifiers, the full
  cross product where identifiers repeat; and a row holds the path and the genre only.
\<close>

theorem C3_matcher_is_inner_join:
  "get_matched_midi midi_folder tree genre_df =
     map (\<lambda>(f, l). \<lparr>Path = m_Path f, Genre = g_Genre l\<rparr>)
         (matching_pairs (all_midi_df midi_folder tree) genre_df)
   \<and> set (matching_pairs (all_midi_df midi_folder tree) genre_df) =
       {(f, l). f \<in> set (all_midi_df midi_folder tree) \<and> l \<in> set genre_df
                \<and> m_TrackID f = g_TrackID l}
   \<and> length (get_matched_midi midi_folder tree genre_df) =
       card {(i, j). i < length (all_midi_df midi_folder tree) \<and> j < length genre_df
                     \<and> m_TrackID (all_midi_df midi_folder tree ! i) = g_TrackID (genre_df ! j)}"
  by (simp add: get_matched_midi_pairs set_matching_pairs length_matching_pairs)

text \<open>
  C3, example: two files and two labels under TRK001 give four rows; TRK002 has no
  label and TRK003 no file.
\<close>

theorem C3_matcher_witness:
  "get_matched_midi ''root'' example_tree example_genre_df =
     [\<lparr>Path = ''root/TRK001/a.mid'', Genre = ''Rock''\<rparr>,
      \<lparr>Path = ''root/TRK001/a.mid'', Genre = ''Pop''\<rparr>,
      \<lparr>Path = ''root/TRK001/b.mid'', Genre = ''Rock''\<rparr>,
      \<lparr>Path = ''root/TRK001/b.mid'', Genre = ''Pop''\<rparr>]"
proof -
  have e: "map (\<lambda>(f, l). \<lparr>Path = m_Path f, Genre = g_Genre l\<rparr>)
         (matching_pairs (all_midi_df ''root'' example_tree) example_genre_df)
     = [\<lparr>Path = ''root/TRK001/a.mid'', Genre = ''Rock''\<rparr>,
      \<lparr>Path = ''root/TRK001/a.mid'', Genre = ''Pop''\<rparr>,
      \<lparr>Path = ''root/TRK001/b.mid'', Genre = ''Rock''\<rparr>,
      \<lparr>Path = ''root/TRK001/b.mid'', Genre = ''Pop''\<rparr>]"
    by code_simp
  from C3_matcher_is_inner_join [of "''root''" example_tree example_genre_df]
  show ?thesis by (simp only: e)
qed

section \<open>Properties of the Feature Extractor\<close>

lemma normalize_features_five:
  "normalize_features [a, b, c, d, e] =
     Inr [(a - 150) / 300, (b - 2) / 10, (c - 260) / 400, (d - 3) / 8, (e - 3) / 8]"
  by (simp add: normalize_features_def py_index_def)

text \<open>
  C1. On every five-element feature list \<open>[tempo, num_sig_changes, resolution, ts_num,
  ts_den]\<close> the normalisation returns the affine rescale with the constants
  150/300, 2/10, 260/400, 3/8 and 3/8, whatever arithmetic the numbers carry; being a
  function of its argument alone it gives the same output for the same input; and over
  exact arithmetic the raw features \<open>[120, 0, 480, 4, 4]\<close> normalise to
  \<open>[-0.1, -0.2, 0.55, 0.125, 0.125]\<close>.
\<close>

theorem C1_normalize_features_affine:
  "normalize_features [tempo, n_sig_changes, res, ts_num, ts_den] =
     Inr [(tempo - 150) / 300, (n_sig_changes - 2) / 10, (res - 260) / 400,
          (ts_num - 3) / 8, (ts_den - 3) / 8]
   \<and> normalize_features [120, 0, 480, 4, 4 :: real] =
     Inr [- 0.1, - 0.2, 0.55, 0.125, 0.125]"
  by (simp add: normalize_features_five)

section \<open>Properties of the Genre Encoder\<close>

lemma unique_Nil [simp]: "unique [] = []"
  by (simp add: unique_def)

lemma unique_snoc:
  "unique (xs @ [x]) = (if x \<in> set (unique xs) then unique xs else unique xs @ [x])"
  by (simp add: unique_def)

lemma set_unique [simp]: "set (unique xs) = set xs"
  by (induction xs rule: rev_induct) (auto simp: unique_snoc)

lemma distinct_unique [simp]: "distinct (unique xs)"
  by (induction xs rule: rev_induct) (auto simp: unique_snoc)

lemma first_index_less: "x \<in> set xs \<Longrightarrow> first_index xs x < length xs"
  unfolding first_index_def by (induction xs) auto

lemma first_index_append_old: "x \<in> set xs \<Longrightarrow> first_index (xs @ ys) x = first_index xs x"
  unfolding first_index_def by (induction xs) auto

lemma first_index_append_new: "x \<notin> set xs \<Longrightarrow> first_index (xs @ [x]) x = length xs"
  unfolding first_index_def by (induction xs) auto

lemma unique_first_occurrence:
  "sorted_wrt (<) (map (first_index xs) (unique xs))"
proof (induction xs rule: rev_induct)
  case Nil
  then show ?case by simp
next
  case (snoc x xs)
  have old: "map (first_index (xs @ [x])) (unique xs) = map (first_index xs) (unique xs)"
    by (rule map_cong) (auto simp: first_index_append_old)
  show ?case
  proof (cases "x \<in> set xs")
    case True
    then have u: "unique (xs @ [x]) = unique xs" by (simp add: unique_snoc)
    show ?thesis unfolding u old by (rule snoc)
  next
    case False
    then have u: "unique (xs @ [x]) = unique xs @ [x]" by (simp add: unique_snoc)
    have bound: "\<forall>y \<in> set (map (first_index xs) (unique xs)). y < length xs"
      by (auto simp: first_index_less)
    have "map (first_index (xs @ [x])) (unique (xs @ [x]))
          = map (first_index xs) (unique xs) @ [length xs]"
      unfolding u using old first_index_append_new [OF False]
      by (simp only: map_append list.map)
    moreover have "sorted_wrt (<) (map (first_index xs) (unique xs) @ [length xs])"
      using snoc bound by (simp only: sorted_wrt_append) simp
    ultimately show ?thesis by (simp only:)
  qed
qed

lemma enumerate_dict_Nil [simp]: "enumerate_dict [] = Map.empty"
  by (simp add: enumerate_dict_def)

lemma enumerate_dict_snoc:
  "enumerate_dict (gl @ [g]) = (enumerate_dict gl)(g \<mapsto> int (length gl))"
  by (simp add: enumerate_dict_def enumerate_append_eq)

lemma dom_enumerate_dict: "dom (enumerate_dict gl) = set gl"
  by (induction gl rule: rev_induct) (auto simp: enumerate_dict_snoc dom_def)

lemma enumerate_dict_nth:
  "distinct gl \<Longrightarrow> i < length gl \<Longrightarrow> enumerate_dict gl (gl ! i) = Some (int i)"
proof (induction gl rule: rev_induct)
  case Nil
  then show ?case by simp
next
  case (snoc g gl)
  show ?case
  proof (cases "i < length gl")
    case True
    with snoc.prems have "gl ! i \<noteq> g" by auto
    with True snoc show ?thesis by (simp add: enumerate_dict_snoc nth_append)
  next
    case False
    with snoc.prems have "i = length gl" by simp
    then show ?thesis by (simp add: enumerate_dict_snoc)
  qed
qed

lemma first_index_nth: "distinct xs \<Longrightarrow> i < length xs \<Longrightarrow> first_index xs (xs ! i) = i"
proof (induction xs arbitrary: i)
  case Nil
  then show ?case by simp
next
  case (Cons a xs)
  then show ?case by (cases i) (auto simp: first_index_def)
qed

lemma enumerate_dict_first_index:
  assumes "distinct gl" and "g \<in> set gl"
  shows "enumerate_dict gl g = Some (int (first_index gl g))"
proof -
  from assms(2) obtain i where i: "i < length gl" "gl ! i = g" by (auto simp: in_set_conv_nth)
  with assms(1) show ?thesis
    using enumerate_dict_nth [of gl i] first_index_nth [of gl i] by simp
qed

lemma eye_nth: "i < n \<Longrightarrow> eye n ! i = map (\<lambda>j. if i = j then 1 else 0) [0..<n]"
  by (simp add: eye_def)

lemma one_hot_single:
  assumes "i < n"
  shows "one_hot [int i] n = Inr [unit_vector n i]"
proof -
  have "np_index (eye n) (int i) = Inr (eye n ! i)"
    using assms by (simp add: np_index_def eye_def)
  moreover have "map astype_int (eye n ! i) = unit_vector n i"
    using assms by (auto simp: eye_nth unit_vector_def astype_int_def)
  ultimately show ?thesis by (simp add: one_hot_def)
qed

lemma unit_vector_props:
  assumes "i < n"
  shows "length (unit_vector n i) = n" and "unit_vector n i ! i = 1"
    and "\<And>j. j < n \<Longrightarrow> j \<noteq> i \<Longrightarrow> unit_vector n i ! j = 0"
    and "count_list (unit_vector n i) 1 = 1"
proof -
  show "length (unit_vector n i) = n" by (simp add: unit_vector_def)
  show "unit_vector n i ! i = 1" using assms by (simp add: unit_vector_def)
  show "\<And>j. j < n \<Longrightarrow> j \<noteq> i \<Longrightarrow> unit_vector n i ! j = 0" by (simp add: unit_vector_def)
  have "count_list (map (\<lambda>j. if j = i then 1 else (0::int)) [0..<m]) 1 = (if i < m then 1 else 0)" for m
    by (induction m) auto
  with assms show "count_list (unit_vector n i) 1 = 1" by (simp add: unit_vector_def)
qed

lemma first_index_in: "x \<in> set xs \<Longrightarrow> xs ! first_index xs x = x"
  unfolding first_index_def by (induction xs) auto

lemma unique_order:
  assumes "g \<in> set xs" and "h \<in> set xs"
  shows "first_index (unique xs) g < first_index (unique xs) h
         \<longleftrightarrow> first_index xs g < first_index xs h"
proof -
  let ?ys = "unique xs"
  let ?i = "first_index ?ys g" and ?j = "first_index ?ys h"
  from assms have i: "?i < length ?ys" "?ys ! ?i = g" and j: "?j < length ?ys" "?ys ! ?j = h"
    by (simp_all add: first_index_less first_index_in)
  have mono: "first_index xs (?ys ! a) < first_index xs (?ys ! b)"
    if "a < b" "b < length ?ys" for a b
    using unique_first_occurrence [of xs] that
    by (simp add: sorted_wrt_iff_nth_less)
  show ?thesis
  proof
    assume "?i < ?j"
    from mono [OF this j(1)] show "first_index xs g < first_index xs h"
      by (simp only: i(2) j(2))
  next
    assume lt: "first_index xs g < first_index xs h"
    show "?i < ?j"
    proof (rule ccontr)
      assume "\<not> ?i < ?j"
      then consider "?j < ?i" | "?i = ?j" by linarith
      then show False
      proof cases
        case 1
        from mono [OF 1 i(1)] have "first_index xs h < first_index xs g"
          by (simp only: i(2) j(2))
        with lt show False by linarith
      next
        case 2
        with i(2) j(2) have "g = h" by metis
        with lt show False by (simp only: less_irrefl)
      qed
    qed
  qed
qed

lemma enumerate_dict_Some:
  assumes "distinct gl" and "enumerate_dict gl g = Some i"
  shows "g \<in> set gl" and "i = int (first_index gl g)" and "first_index gl g < length gl"
proof -
  from assms(2) have "g \<in> dom (enumerate_dict gl)" by auto
  then show g: "g \<in> set gl" by (simp add: dom_enumerate_dict)
  from enumerate_dict_first_index [OF assms(1) g] assms(2)
  show "i = int (first_index gl g)" by simp
  from g show "first_index gl g < length gl" by (rule first_index_less)
qed

lemma enumerate_dict_bij:
  assumes "distinct gl"
  shows "bij_betw (\<lambda>g. the (enumerate_dict gl g)) (set gl) (int ` {0..<length gl})"
proof (rule bij_betw_byWitness [where f' = "\<lambda>i. gl ! nat i"])
  show "\<forall>g \<in> set gl. gl ! nat (the (enumerate_dict gl g)) = g"
    using assms by (simp add: enumerate_dict_first_index first_index_in)
  show "\<forall>i \<in> int ` {0..<length gl}. the (enumerate_dict gl (gl ! nat i)) = i"
    using assms by (auto simp: enumerate_dict_nth)
  show "(\<lambda>g. the (enumerate_dict gl g)) ` set gl \<subseteq> int ` {0..<length gl}"
    using assms by (auto simp: enumerate_dict_first_index first_index_less)
  show "(\<lambda>i. gl ! nat i) ` int ` {0..<length gl} \<subseteq> set gl"
    by auto
qed

text \<open>
  C5. The genre dictionary built from the matched rows has exactly the genres of the
  rows as keys; it is a bijection from them onto the indices \<open>0, \<dots>, num_classes - 1\<close>;
  the indices follow the order of first occurrence in the rows; and for every genre of
  the dictionary the one-hot encoding of its index is one vector of length
  \<open>num_classes\<close> with 1 at that index, 0 at every other index, and so exactly one 1.
\<close>

theorem C5_genre_mapping_and_one_hot:
  "dom (enumerate_dict (unique (map Genre matched_df))) = Genre ` set matched_df
   \<and> bij_betw (\<lambda>g. the (enumerate_dict (unique (map Genre matched_df)) g))
        (Genre ` set matched_df) (int ` {0..<length (unique (map Genre matched_df))})
   \<and> (\<forall>g \<in> Genre ` set matched_df. \<forall>h \<in> Genre ` set matched_df.
        the (enumerate_dict (unique (map Genre matched_df)) g)
          < the (enumerate_dict (unique (map Genre matched_df)) h)
        \<longleftrightarrow> first_index (map Genre matched_df) g < first_index (map Genre matched_df) h)
   \<and> (\<forall>g i. enumerate_dict (unique (map Genre matched_df)) g = Some i \<longrightarrow>
        0 \<le> i \<and> i < int (length (unique (map Genre matched_df)))
        \<and> (\<exists>v. one_hot [i] (length (unique (map Genre matched_df))) = Inr [v]
               \<and> length v = length (unique (map Genre matched_df))
               \<and> v ! nat i = 1
               \<and> (\<forall>j < length v. j \<noteq> nat i \<longrightarrow> v ! j = 0)
               \<and> count_list v 1 = 1))"
proof (intro conjI allI impI ballI)
  let ?gl = "unique (map Genre matched_df)"
  have d: "distinct ?gl" by simp
  have s: "set ?gl = Genre ` set matched_df" by simp
  show "dom (enumerate_dict ?gl) = Genre ` set matched_df"
    by (simp add: dom_enumerate_dict)
  show "bij_betw (\<lambda>g. the (enumerate_dict ?gl g)) (Genre ` set matched_df) (int ` {0..<length ?gl})"
    using enumerate_dict_bij [OF d] by (simp only: s)
  {
    fix g h assume g: "g \<in> Genre ` set matched_df" and h: "h \<in> Genre ` set matched_df"
    then have g': "g \<in> set (map Genre matched_df)" and h': "h \<in> set (map Genre matched_df)"
      by simp_all
    then have "g \<in> set ?gl" "h \<in> set ?gl" by simp_all
    then have "the (enumerate_dict ?gl g) = int (first_index ?gl g)"
      "the (enumerate_dict ?gl h) = int (first_index ?gl h)"
      by (simp_all add: enumerate_dict_first_index)
    then show "the (enumerate_dict ?gl g) < the (enumerate_dict ?gl h)
        \<longleftrightarrow> first_index (map Genre matched_df) g < first_index (map Genre matched_df) h"
      using unique_order [OF g' h'] by simp
  }
  {
    fix g i assume a: "enumerate_dict ?gl g = Some i"
    note e = enumerate_dict_Some [OF d a]
    let ?k = "first_index ?gl g"
    from e show "0 \<le> i" "i < int (length ?gl)" by simp_all
    have "one_hot [i] (length ?gl) = Inr [unit_vector (length ?gl) ?k]"
      using e one_hot_single [of ?k "length ?gl"] by simp
    moreover note unit_vector_props [OF e(3)]
    ultimately show "\<exists>v. one_hot [i] (length ?gl) = Inr [v]
               \<and> length v = length ?gl
               \<and> v ! nat i = 1
               \<and> (\<forall>j < length v. j \<noteq> nat i \<longrightarrow> v ! j = 0)
               \<and> count_list v 1 = 1"
      using e(2) by simp
  }
qed

text \<open>
  C5, witness: in the rows with genres Rock, Pop, Rock the genre Pop gets index 1 of
  two classes, and its encoding is one vector of length 2 with its single 1 at index 1.
\<close>

theorem C5_genre_mapping_witness:
  "enumerate_dict (unique (map Genre example_matched_df)) ''Pop'' = Some 1
   \<and> (\<exists>v. one_hot [1] (length (unique (map Genre example_matched_df))) = Inr [v]
          \<and> length v = length (unique (map Genre example_matched_df))
          \<and> v ! nat 1 = 1 \<and> count_list v 1 = 1)"
proof -
  have e: "enumerate_dict (unique (map Genre example_matched_df)) ''Pop'' = Some 1"
    by code_simp
  from C5_genre_mapping_and_one_hot [of example_matched_df] e show ?thesis by blast
qed

section \<open>Properties of row processing and assembly\<close>

lemma process_row_ok:
  assumes "distinct gl" and "Genre row \<in> set gl"
  shows "process_row PrettyMIDI row (enumerate_dict gl) (length gl)
         = Inr (expected_row PrettyMIDI gl row)"
proof -
  have "enumerate_dict gl (Genre row) = Some (int (first_index gl (Genre row)))"
    using assms by (rule enumerate_dict_first_index)
  moreover have "one_hot [int (first_index gl (Genre row))] (length gl)
                 = Inr [unit_vector (length gl) (first_index gl (Genre row))]"
    using assms(2) by (intro one_hot_single first_index_less)
  ultimately show ?thesis
    by (simp add: process_row_def expected_row_def py_index_def)
qed

lemma map_err_all_ok:
  "(\<And>x. x \<in> set xs \<Longrightarrow> f x = Inr (g x)) \<Longrightarrow> map_err f xs = Inr (map g xs)"
  by (induction xs) simp_all

lemma columns_DataFrame_Nil: "columns (DataFrame []) = []"
  by (simp add: DataFrame_def)

lemma columns_DataFrame_Cons: "''Features'' \<in> set (columns (DataFrame (r # rs)))"
  by (simp add: DataFrame_def)

lemma assemble_eq:
  "bind_err (dropna_Features (DataFrame data)) (\<lambda>df. Inr (to_json_records df))
   = (if data = [] then Inl KeyError else Inr (filter (\<lambda>r. Features r \<noteq> None) data))"
proof (cases data)
  case Nil
  then show ?thesis by (simp add: dropna_Features_def columns_DataFrame_Nil)
next
  case (Cons r rs)
  have "records (DataFrame data) = data" by (simp add: DataFrame_def)
  with Cons columns_DataFrame_Cons [of r rs] show ?thesis
    by (simp add: dropna_Features_def to_json_records_def)
qed

lemma process_matched_eq:
  "process_matched PrettyMIDI matched_df =
     (if matched_df = [] then Inl KeyError
      else Inr (filter (\<lambda>r. Features r \<noteq> None)
                  (map (expected_row PrettyMIDI (unique (map Genre matched_df))) matched_df)))"
proof -
  let ?gl = "unique (map Genre matched_df)"
  have "map_err (\<lambda>row. process_row PrettyMIDI row (enumerate_dict ?gl) (length ?gl)) matched_df
        = Inr (map (expected_row PrettyMIDI ?gl) matched_df)"
    by (rule map_err_all_ok) (simp add: process_row_ok)
  then show ?thesis
    by (simp add: process_matched_def Let_def assemble_eq)
qed

lemma get_features_cases:
  "get_features PrettyMIDI path =
     (case PrettyMIDI path of
        Returns file \<Rightarrow>
          (case estimate_tempo file of
             Returns tempo \<Rightarrow>
               Some [(tempo - 150) / 300,
                     (real (length (time_signature_changes file)) - 2) / 10,
                     (real_of_int (resolution file) - 260) / 400,
                     (real_of_int (case time_signature_changes file of [] \<Rightarrow> 4 | t # _ \<Rightarrow> numerator t) - 3) / 8,
                     (real_of_int (case time_signature_changes file of [] \<Rightarrow> 4 | t # _ \<Rightarrow> denominator t) - 3) / 8]
           | Raises e \<Rightarrow> None
           | Warns w tempo \<Rightarrow> None)
      | Raises e \<Rightarrow> None
      | Warns w file \<Rightarrow> None)"
  by (simp add: get_features_def get_features_try_def warnings_as_errors_def
      normalize_features_five Let_def split: outcome.splits list.splits)

lemma get_features_local:
  "P' path = P path \<Longrightarrow> get_features P' path = get_features P path"
  by (simp add: get_features_def get_features_try_def)

text \<open>
  C10. Feature extraction returns a value for every path and every behaviour of the
  parser: whatever exception ends the body of the \<^verbatim>\<open>try\<close>, the result is None, and
  otherwise it is a list of exactly 5 numbers. None is the result when the parser
  raises, and also when the file parses and tempo estimation then raises or warns.
\<close>

theorem C10_get_features_total:
  "(get_features PrettyMIDI path = None
      \<or> (\<exists>features. get_features PrettyMIDI path = Some features \<and> length features = 5))
   \<and> (\<forall>e. get_features_try PrettyMIDI path = Inl e \<longrightarrow> get_features PrettyMIDI path = None)
   \<and> (\<forall>features. get_features_try PrettyMIDI path = Inr features \<longrightarrow>
          get_features PrettyMIDI path = Some features \<and> length features = 5)
   \<and> (\<forall>e. PrettyMIDI path = Raises e \<longrightarrow> get_features PrettyMIDI path = None)
   \<and> (\<forall>midi e. PrettyMIDI path = Returns midi \<and> estimate_tempo midi = Raises e
         \<longrightarrow> get_features PrettyMIDI path = None)
   \<and> (\<forall>midi w t. PrettyMIDI path = Returns midi \<and> estimate_tempo midi = Warns w t
         \<longrightarrow> get_features PrettyMIDI path = None)"
proof (intro conjI allI impI)
  show total: "get_features PrettyMIDI path = None
        \<or> (\<exists>features. get_features PrettyMIDI path = Some features \<and> length features = 5)"
    by (simp add: get_features_cases split: outcome.splits)
  show "get_features PrettyMIDI path = None" if "get_features_try PrettyMIDI path = Inl e" for e
    using that by (simp add: get_features_def)
  show "get_features PrettyMIDI path = Some features"
    if "get_features_try PrettyMIDI path = Inr features" for features
    using that by (simp add: get_features_def)
  then show "length features = 5"
    if "get_features_try PrettyMIDI path = Inr features" for features
    using that total by auto
  show "get_features PrettyMIDI path = None" if "PrettyMIDI path = Raises e" for e
    using that by (simp add: get_features_cases)
  show "get_features PrettyMIDI path = None"
    if "PrettyMIDI path = Returns midi \<and> estimate_tempo midi = Raises e" for midi e
    using that by (simp add: get_features_cases)
  show "get_features PrettyMIDI path = None"
    if "PrettyMIDI path = Returns midi \<and> estimate_tempo midi = Warns w t" for midi w t
    using that by (simp add: get_features_cases)
qed

text \<open>
  C10, witness: a file that parses but whose tempo estimation raises ValueError gives
  None; a file with tempo 120, no time-signature change and resolution 480 gives the
  five normalised features.
\<close>

theorem C10_get_features_witness:
  "get_features example_parser ''root/TRK003/c.mid'' = None
   \<and> get_features example_parser ''root/TRK001/a.mid'' = Some [- 0.1, - 0.2, 0.55, 0.125, 0.125]"
proof -
  have p: "example_parser ''root/TRK003/c.mid'' = Returns silent_song
           \<and> estimate_tempo silent_song = Raises ValueError"
    by (simp add: example_parser_def silent_song_def)
  have q: "get_features_try example_parser ''root/TRK001/a.mid''
           = Inr [- 0.1, - 0.2, 0.55, 0.125, 0.125]"
    by (simp add: get_features_try_def example_parser_def song_def warnings_as_errors_def
        normalize_features_five)
  from C10_get_features_total [of example_parser "''root/TRK003/c.mid''"] p
  have 1: "get_features example_parser ''root/TRK003/c.mid'' = None" by blast
  from C10_get_features_total [of example_parser "''root/TRK001/a.mid''"]
  have "\<forall>features. get_features_try example_parser ''root/TRK001/a.mid'' = Inr features \<longrightarrow>
          get_features example_parser ''root/TRK001/a.mid'' = Some features \<and> length features = 5"
    by (elim conjE) assumption
  with q have 2: "get_features example_parser ''root/TRK001/a.mid''
                  = Some [- 0.1, - 0.2, 0.55, 0.125, 0.125]" by blast
  from 1 2 show ?thesis by blast
qed

lemma matching_pairs_empty:
  assumes "set (map m_TrackID fs) \<inter> set (map g_TrackID ls) = {}"
  shows "matching_pairs fs ls = []"
proof -
  have "set (matching_pairs fs ls) = {}"
    using assms by (auto simp: set_matching_pairs)
  then show ?thesis by simp
qed

lemma isolated_rows:
  assumes "get_features P path = None" and "\<And>p. p \<noteq> path \<Longrightarrow> P' p = P p"
  shows "filter (\<lambda>r. Features r \<noteq> None) (map (expected_row P gl) rows)
         = filter (\<lambda>r. r_Path r \<noteq> path)
             (filter (\<lambda>r. Features r \<noteq> None) (map (expected_row P' gl) rows))"
proof (induction rows)
  case Nil
  then show ?case by simp
next
  case (Cons row rows)
  show ?case
  proof (cases "Path row = path")
    case True
    with assms(1) Cons show ?thesis by (simp add: expected_row_def)
  next
    case False
    then have "get_features P' (Path row) = get_features P (Path row)"
      by (intro get_features_local assms(2))
    with False Cons show ?thesis by (simp add: expected_row_def)
  qed
qed

lemma process_matched_isolated:
  assumes "get_features P path = None" and "\<And>p. p \<noteq> path \<Longrightarrow> P' p = P p"
  shows "process_matched P matched_df =
           (case process_matched P' matched_df of
              Inl x \<Rightarrow> Inl x
            | Inr ds \<Rightarrow> Inr (filter (\<lambda>r. r_Path r \<noteq> path) ds))"
  using isolated_rows [OF assms, of "unique (map Genre matched_df)" matched_df]
  by (simp add: process_matched_eq)

section \<open>Properties of the whole run\<close>

text \<open>
  C7. If a non-comment line of the label file has fewer than two tab-separated fields,
  counted on the line as read or on the stripped line, the Label Loader raises
  ValueError, returning no label set, and the exception ends the whole run whatever
  the directory tree and the MIDI files are. The line may be a line of text mode, ended
  by a line feed, a carriage return or both, or a line of the file's characters cut at
  line feeds only.
\<close>

theorem C7_short_line_aborts_run:
  assumes "l \<in> set (file_lines contents) \<or> l \<in> set (text_lines contents)"
    and "hd l \<noteq> CHR ''#''"
    and "length (str_split l TAB) < 2 \<or> length (str_split (str_strip l) TAB) < 2"
  shows "get_genres contents = Inl ValueError
         \<and> save_matching_csv PrettyMIDI contents midi_folder tree = Inl ValueError"
proof -
  have short: "length (str_split (str_strip l) TAB) < 2"
    using assms(3) fields_strip_le [of l] by auto
  have "\<exists>p \<in> set (text_lines contents).
          hd p \<noteq> CHR ''#'' \<and> length (str_split (str_strip p) TAB) < 2"
    using assms(1)
  proof
    assume "l \<in> set (text_lines contents)"
    with assms(2) short show ?thesis by blast
  next
    assume raw: "l \<in> set (file_lines contents)"
    then have "l \<noteq> []" by (rule file_lines_nonempty)
    moreover from short have "TAB \<notin> set (str_strip l)" by (simp add: short_iff_no_TAB)
    ultimately obtain p where "p \<in> set (text_lines l)" "hd p \<noteq> CHR ''#''"
      "TAB \<notin> set (str_strip p)"
      using first_text_line_short [OF _ assms(2)] by blast
    with text_lines_of_raw_line [OF raw] show ?thesis
      by (auto simp: short_iff_no_TAB)
  qed
  then obtain p where "p \<in> set (text_lines contents)" "hd p \<noteq> CHR ''#''"
    "length (str_split (str_strip p) TAB) < 2" by blast
  then have "collect_labels (text_lines contents) [] [] = Inl ValueError"
    by (rule collect_labels_bad)
  then have "get_genres contents = Inl ValueError"
    by (simp add: get_genres_collect)
  then show ?thesis by (simp add: save_matching_csv_def)
qed

text \<open>
  C7, witness: a well-formed first line does not save the run when the line after a
  comment, which a lone carriage return ends, separates its fields by a space.
\<close>

theorem C7_short_line_witness:
  "get_genres (''TRK001'' @ [TAB] @ ''Rock'' @ [NL] @ ''#note'' @ [CR] @ ''TRK002 Pop'' @ [NL])
     = Inl ValueError
   \<and> save_matching_csv no_midi
        (''TRK001'' @ [TAB] @ ''Rock'' @ [NL] @ ''#note'' @ [CR] @ ''TRK002 Pop'' @ [NL])
        ''root'' (Dir [] []) = Inl ValueError"
proof -
  have 1: "''TRK002 Pop'' @ [NL]
             \<in> set (file_lines
                 (''TRK001'' @ [TAB] @ ''Rock'' @ [NL] @ ''#note'' @ [CR] @ ''TRK002 Pop'' @ [NL]))
           \<or> ''TRK002 Pop'' @ [NL]
             \<in> set (text_lines
                 (''TRK001'' @ [TAB] @ ''Rock'' @ [NL] @ ''#note'' @ [CR] @ ''TRK002 Pop'' @ [NL]))"
    by code_simp
  have 2: "hd (''TRK002 Pop'' @ [NL]) \<noteq> CHR ''#''" by simp
  have 3: "length (str_split (''TRK002 Pop'' @ [NL]) TAB) < 2
           \<or> length (str_split (str_strip (''TRK002 Pop'' @ [NL])) TAB) < 2"
    by code_simp
  from C7_short_line_aborts_run [OF 1 2 3] show ?thesis .
qed

text \<open>
  C9. When the label file loads and no identifier of the file index occurs among the
  labels, the join has no rows, the frame built from the empty list of processed rows
  has no column, \<^verbatim>\<open>dropna(subset=["Features"])\<close> raises KeyError, and the run ends with
  that exception before the output file is written.
\<close>

theorem C9_no_match_raises_KeyError:
  assumes "get_genres contents = Inr genre_df"
    and "set (map m_TrackID (all_midi_df midi_folder tree)) \<inter> set (map g_TrackID genre_df) = {}"
  shows "get_matched_midi midi_folder tree genre_df = []
         \<and> columns (DataFrame []) = []
         \<and> dropna_Features (DataFrame []) = Inl KeyError
         \<and> save_matching_csv PrettyMIDI contents midi_folder tree = Inl KeyError"
proof -
  have m: "get_matched_midi midi_folder tree genre_df = []"
    using matching_pairs_empty [OF assms(2)] by (simp add: get_matched_midi_pairs)
  have "save_matching_csv PrettyMIDI contents midi_folder tree = Inl KeyError"
    using assms(1) m by (simp add: save_matching_csv_def process_matched_eq)
  with m show ?thesis
    by (simp add: columns_DataFrame_Nil dropna_Features_def)
qed

text \<open>
  C9, witness: a label for TRK009 and a tree with TRK001 and TRK002 only.
\<close>

theorem C9_no_match_witness:
  "save_matching_csv example_parser (''TRK009'' @ [TAB] @ ''Rock'' @ [NL]) ''root'' example_tree
   = Inl KeyError"
proof -
  have 1: "get_genres (''TRK009'' @ [TAB] @ ''Rock'' @ [NL])
           = Inr [\<lparr>g_Genre = ''Rock'', g_TrackID = ''TRK009''\<rparr>]"
    by code_simp
  have 2: "set (map m_TrackID (all_midi_df ''root'' example_tree))
           \<inter> set (map g_TrackID [\<lparr>g_Genre = ''Rock'', g_TrackID = ''TRK009''\<rparr>]) = {}"
    by code_simp
  from C9_no_match_raises_KeyError [OF 1 2] show ?thesis by blast
qed

text \<open>
  C4. From a non-empty sequence of matched rows the run writes exactly the records of
  the rows whose features are present, in order, each with the path, the genre, the
  one-hot vector and the features of its own input row: no written record has
  features None, and every row with features is written. The same holds of the
  assembly step alone on a non-empty sequence of processed rows. When the only
  matched row has no features, the run completes and writes zero records.
\<close>

theorem C4_assembler_keeps_rows_with_features:
  "(matched_df \<noteq> [] \<longrightarrow>
      process_matched PrettyMIDI matched_df =
        Inr (filter (\<lambda>r. Features r \<noteq> None)
               (map (expected_row PrettyMIDI (unique (map Genre matched_df))) matched_df)))
   \<and> (\<forall>ds. process_matched PrettyMIDI matched_df = Inr ds \<longrightarrow>
          (\<forall>r \<in> set ds. Features r \<noteq> None))
   \<and> (\<forall>row \<in> set matched_df. get_features PrettyMIDI (Path row) \<noteq> None \<longrightarrow>
          (\<exists>ds. process_matched PrettyMIDI matched_df = Inr ds
                \<and> expected_row PrettyMIDI (unique (map Genre matched_df)) row \<in> set ds))
   \<and> (processed_data \<noteq> [] \<longrightarrow>
        bind_err (dropna_Features (DataFrame processed_data)) (\<lambda>df. Inr (to_json_records df)) =
          Inr (filter (\<lambda>r. Features r \<noteq> None) processed_data))
   \<and> (\<forall>genre_df row.
        get_genres contents = Inr genre_df
        \<and> get_matched_midi midi_folder tree genre_df = [row]
        \<and> get_features PrettyMIDI (Path row) = None
        \<longrightarrow> save_matching_csv PrettyMIDI contents midi_folder tree = Inr [])"
proof (intro conjI)
  show "matched_df \<noteq> [] \<longrightarrow>
      process_matched PrettyMIDI matched_df =
        Inr (filter (\<lambda>r. Features r \<noteq> None)
               (map (expected_row PrettyMIDI (unique (map Genre matched_df))) matched_df))"
    by (simp add: process_matched_eq)
  show "\<forall>ds. process_matched PrettyMIDI matched_df = Inr ds \<longrightarrow>
          (\<forall>r \<in> set ds. Features r \<noteq> None)"
    by (auto simp: process_matched_eq split: if_splits)
  show "\<forall>row \<in> set matched_df. get_features PrettyMIDI (Path row) \<noteq> None \<longrightarrow>
          (\<exists>ds. process_matched PrettyMIDI matched_df = Inr ds
                \<and> expected_row PrettyMIDI (unique (map Genre matched_df)) row \<in> set ds)"
    by (auto simp: process_matched_eq expected_row_def)
  show "processed_data \<noteq> [] \<longrightarrow>
        bind_err (dropna_Features (DataFrame processed_data)) (\<lambda>df. Inr (to_json_records df)) =
          Inr (filter (\<lambda>r. Features r \<noteq> None) processed_data)"
    by (simp add: assemble_eq)
  show "\<forall>genre_df row.
        get_genres contents = Inr genre_df
        \<and> get_matched_midi midi_folder tree genre_df = [row]
        \<and> get_features PrettyMIDI (Path row) = None
        \<longrightarrow> save_matching_csv PrettyMIDI contents midi_folder tree = Inr []"
    by (simp add: process_matched_eq save_matching_csv_def expected_row_def)
qed

text \<open>
  C4, witness: of three matched rows the one whose parser warns and the one whose tempo
  estimation raises are dropped and the third is written with its own fields; and a
  run whose only matched file cannot be opened writes the empty record list.
\<close>

theorem C4_assembler_witness:
  "process_matched example_parser example_matched_df =
     Inr [\<lparr>r_Path = ''root/TRK001/a.mid'', r_Genre = ''Rock'', OneHotGenre = [1, 0],
           Features = Some [- 0.1, - 0.2, 0.55, 0.125, 0.125]\<rparr>]
   \<and> save_matching_csv no_midi (''TRK002'' @ [TAB] @ ''Rock'' @ [NL]) ''root'' example_tree = Inr []"
proof -
  have ne: "example_matched_df \<noteq> []" by (simp add: example_matched_df_def)
  have gl: "unique (map Genre example_matched_df) = [''Rock'', ''Pop'']"
    by code_simp
  have f1: "get_features example_parser ''root/TRK001/a.mid'' = Some [- 0.1, - 0.2, 0.55, 0.125, 0.125]"
    by (simp add: get_features_cases example_parser_def song_def)
  have f2: "get_features example_parser ''root/TRK002/b.mid'' = None"
    by (simp add: get_features_cases example_parser_def)
  have f3: "get_features example_parser ''root/TRK003/c.mid'' = None"
    by (simp add: get_features_cases example_parser_def silent_song_def)
  have v: "unit_vector (Suc (Suc 0)) (first_index [''Rock'', ''Pop''] ''Rock'') = [1, 0]"
    by (simp add: unit_vector_def first_index_def)
  have e: "filter (\<lambda>r. Features r \<noteq> None)
             (map (expected_row example_parser (unique (map Genre example_matched_df)))
                example_matched_df)
           = [\<lparr>r_Path = ''root/TRK001/a.mid'', r_Genre = ''Rock'', OneHotGenre = [1, 0],
               Features = Some [- 0.1, - 0.2, 0.55, 0.125, 0.125]\<rparr>]"
    unfolding gl by (simp add: example_matched_df_def expected_row_def f1 f2 f3 v)
  have g: "get_genres (''TRK002'' @ [TAB] @ ''Rock'' @ [NL])
           = Inr [\<lparr>g_Genre = ''Rock'', g_TrackID = ''TRK002''\<rparr>]"
    by code_simp
  have m: "get_matched_midi ''root'' example_tree [\<lparr>g_Genre = ''Rock'', g_TrackID = ''TRK002''\<rparr>]
           = [\<lparr>Path = ''root/TRK002/c.mid'', Genre = ''Rock''\<rparr>]"
    by code_simp
  have n: "get_features no_midi (Path \<lparr>Path = ''root/TRK002/c.mid'', Genre = ''Rock''\<rparr>) = None"
    by (simp add: get_features_cases no_midi_def)
  note t = C4_assembler_keeps_rows_with_features
  from t [of example_matched_df example_parser "[]" "[]" "[]" example_tree]
  have "example_matched_df \<noteq> [] \<longrightarrow>
      process_matched example_parser example_matched_df =
        Inr (filter (\<lambda>r. Features r \<noteq> None)
               (map (expected_row example_parser (unique (map Genre example_matched_df)))
                  example_matched_df))"
    by (rule conjunct1)
  with ne have "process_matched example_parser example_matched_df =
        Inr (filter (\<lambda>r. Features r \<noteq> None)
               (map (expected_row example_parser (unique (map Genre example_matched_df)))
                  example_matched_df))"
    by (rule rev_mp)
  then have 1: "process_matched example_parser example_matched_df =
     Inr [\<lparr>r_Path = ''root/TRK001/a.mid'', r_Genre = ''Rock'', OneHotGenre = [1, 0],
           Features = Some [- 0.1, - 0.2, 0.55, 0.125, 0.125]\<rparr>]"
    by (simp only: e)
  from t [of "[]" no_midi "[]" "''TRK002'' @ [TAB] @ ''Rock'' @ [NL]" "''root''" example_tree]
  have "\<forall>genre_df row.
        get_genres (''TRK002'' @ [TAB] @ ''Rock'' @ [NL]) = Inr genre_df
        \<and> get_matched_midi ''root'' example_tree genre_df = [row]
        \<and> get_features no_midi (Path row) = None
        \<longrightarrow> save_matching_csv no_midi (''TRK002'' @ [TAB] @ ''Rock'' @ [NL]) ''root'' example_tree
            = Inr []"
    by (elim conjE) assumption
  with g m n
  have 2: "save_matching_csv no_midi (''TRK002'' @ [TAB] @ ''Rock'' @ [NL]) ''root'' example_tree = Inr []"
    by blast
  from 1 2 show ?thesis by (rule conjI)
qed

text \<open>
  C2. If parsing the file at a path raises an exception or emits a warning, feature
  extraction returns None for that path; no record with that path is in the written
  dataset; and the outcome of the run is the outcome under any other behaviour of the
  parser at that path, with the records of that path removed: the failure neither
  ends the run nor changes the record of any other row.
\<close>

theorem C2_parse_failure_is_isolated:
  assumes "PrettyMIDI path = Raises e \<or> PrettyMIDI path = Warns w midi"
  shows "get_features PrettyMIDI path = None
     \<and> (\<forall>ds. save_matching_csv PrettyMIDI contents midi_folder tree = Inr ds
           \<longrightarrow> (\<forall>r \<in> set ds. r_Path r \<noteq> path))
     \<and> (\<forall>P'. (\<forall>p. p \<noteq> path \<longrightarrow> P' p = PrettyMIDI p) \<longrightarrow>
           save_matching_csv PrettyMIDI contents midi_folder tree =
             (case save_matching_csv P' contents midi_folder tree of
                Inl x \<Rightarrow> Inl x
              | Inr ds \<Rightarrow> Inr (filter (\<lambda>r. r_Path r \<noteq> path) ds)))"
proof -
  have none: "get_features PrettyMIDI path = None"
    using assms by (auto simp: get_features_cases)
  have iso: "save_matching_csv PrettyMIDI contents midi_folder tree =
             (case save_matching_csv P' contents midi_folder tree of
                Inl x \<Rightarrow> Inl x
              | Inr ds \<Rightarrow> Inr (filter (\<lambda>r. r_Path r \<noteq> path) ds))"
    if "\<forall>p. p \<noteq> path \<longrightarrow> P' p = PrettyMIDI p" for P'
  proof (cases "get_genres contents")
    case (Inl x)
    then show ?thesis by (simp add: save_matching_csv_def)
  next
    case (Inr genre_df)
    from that have "\<And>p. p \<noteq> path \<Longrightarrow> P' p = PrettyMIDI p" by simp
    from process_matched_isolated [OF none this] Inr show ?thesis
      by (simp add: save_matching_csv_def)
  qed
  have absent: "\<forall>r \<in> set ds. r_Path r \<noteq> path"
    if "save_matching_csv PrettyMIDI contents midi_folder tree = Inr ds" for ds
  proof -
    from iso [of PrettyMIDI] that have "filter (\<lambda>r. r_Path r \<noteq> path) ds = ds" by simp
    then show ?thesis by (simp only: filter_id_conv)
  qed
  from none iso absent show ?thesis by blast
qed

text \<open>
  C2, witness: a parser that warns on one file, and a parser that raises on every file.
\<close>

theorem C2_parse_failure_witness:
  "get_features example_parser ''root/TRK002/b.mid'' = None
   \<and> get_features no_midi ''root/TRK001/a.mid'' = None"
proof -
  have 1: "example_parser ''root/TRK002/b.mid'' = Raises ValueError
           \<or> example_parser ''root/TRK002/b.mid'' = Warns ''RuntimeWarning'' song"
    by (simp add: example_parser_def)
  have 2: "no_midi ''root/TRK001/a.mid'' = Raises (LibraryError ''OSError'')
           \<or> no_midi ''root/TRK001/a.mid'' = Warns [] song"
    by (simp add: no_midi_def)
  from C2_parse_failure_is_isolated
         [of example_parser "''root/TRK002/b.mid''" ValueError "''RuntimeWarning''" song, OF 1]
       C2_parse_failure_is_isolated
         [of no_midi "''root/TRK001/a.mid''" "LibraryError ''OSError''" "[]" song, OF 2]
  show ?thesis by blast
qed

end
